theory Spec2Isabelle
  imports Main "HOL-Library.Log_Nat"
begin

section \<open>Python values\<close>

text \<open>
  The values that travel through the nested-mapping utilities of
  \<^verbatim>\<open>ptyrad/utils/common.py\<close>. A \<^verbatim>\<open>dict\<close> is the list of its entries in
  iteration (insertion) order, with string keys as in the configuration mappings the
  module prints and reads. Every object that is neither \<^verbatim>\<open>None\<close>, a \<^verbatim>\<open>bool\<close>, an
  \<^verbatim>\<open>int\<close>, a \<^verbatim>\<open>str\<close>, a \<^verbatim>\<open>list\<close> nor a \<^verbatim>\<open>dict\<close> (a float, a tuple, a tensor)
  is a \<open>PObject\<close>: the utilities only ever print it, so the model keeps its
  \<^verbatim>\<open>repr()\<close> and \<^verbatim>\<open>str()\<close> texts.
\<close>

datatype pyval =
    PNone
  | PBool bool
  | PInt int
  | PStr string
  | PList "pyval list"
  | PDict "(string \<times> pyval) list"
  | PObject string string

text \<open>\<^verbatim>\<open>isinstance(d, dict)\<close>, \<^verbatim>\<open>d is None\<close> and \<^verbatim>\<open>d.get(key)\<close>.\<close>

fun is_dict :: "pyval \<Rightarrow> bool" where
  "is_dict (PDict kvs) = True"
| "is_dict v = False"

fun is_None :: "pyval \<Rightarrow> bool" where
  "is_None PNone = True"
| "is_None v = False"

fun dict_get :: "pyval \<Rightarrow> string \<Rightarrow> pyval" where
  "dict_get (PDict kvs) key = (case map_of kvs key of None \<Rightarrow> PNone | Some v \<Rightarrow> v)"
| "dict_get v key = PNone"

section \<open>\<^verbatim>\<open>safe_get_nested\<close>\<close>

text \<open>
  \<^verbatim>\<open>
  def safe_get_nested(d, keys, default=None):
      for key in keys:
          if not isinstance(d, dict):
              return default
          d = d.get(key)
          if d is None:
              return default
      return d
  \<close>
  The loop is a recursion over the key sequence; \<open>d\<close> is the loop variable. No step
  of the body can raise for string keys, so the result is a plain value.
\<close>

fun safe_get_nested :: "pyval \<Rightarrow> string list \<Rightarrow> pyval \<Rightarrow> pyval" where
  "safe_get_nested d [] dflt = d"
| "safe_get_nested d (key # keys) dflt =
     (if \<not> is_dict d then dflt
      else let d' = dict_get d key
           in if is_None d' then dflt else safe_get_nested d' keys dflt)"

text \<open>
  The specification's reading of a key path: the value stored at the end of the path,
  defined when every key is present and every value indexed on the way is a mapping.
\<close>

fun stored_at :: "pyval \<Rightarrow> string list \<Rightarrow> pyval option" where
  "stored_at d [] = Some d"
| "stored_at (PDict kvs) (key # keys) =
     (case map_of kvs key of None \<Rightarrow> None | Some v \<Rightarrow> stored_at v keys)"
| "stored_at d (key # keys) = None"

section \<open>Properties of \<^verbatim>\<open>safe_get_nested\<close>\<close>

lemma safe_get_nested_stored:
  "keys \<noteq> [] \<Longrightarrow> stored_at d keys = Some v \<Longrightarrow> v \<noteq> PNone \<Longrightarrow>
   safe_get_nested d keys dflt = v"
proof (induction d keys arbitrary: v rule: stored_at.induct)
  case (2 kvs key keys)
  from "2.prems"(2) obtain u where u: "map_of kvs key = Some u" and st: "stored_at u keys = Some v"
    by (auto split: option.splits)
  show ?case
  proof (cases keys)
    case Nil
    with st have "u = v" by simp
    with u Nil "2.prems"(3) show ?thesis by (cases v) simp_all
  next
    case (Cons k ks)
    have "u \<noteq> PNone" using st Cons by (cases u) auto
    moreover have "safe_get_nested u keys dflt = v"
      using "2.IH"[OF u _ st "2.prems"(3)] Cons by simp
    ultimately show ?thesis using u by (cases u) simp_all
  qed
qed simp_all

lemma safe_get_nested_missing:
  "keys \<noteq> [] \<Longrightarrow> stored_at d keys = None \<or> stored_at d keys = Some PNone \<Longrightarrow>
   safe_get_nested d keys dflt = dflt"
proof (induction d keys rule: stored_at.induct)
  case (2 kvs key keys)
  show ?case
  proof (cases "map_of kvs key")
    case None
    then show ?thesis by simp
  next
    case (Some u)
    show ?thesis
    proof (cases keys)
      case Nil
      with Some "2.prems"(2) have "u = PNone" by simp
      with Some show ?thesis by simp
    next
      case (Cons k ks)
      have "safe_get_nested u keys dflt = dflt"
        using "2.IH"[OF Some] "2.prems"(2) Some Cons by simp
      with Some show ?thesis by (cases u) simp_all
    qed
  qed
qed simp_all

text \<open>
  C5 (amended). For every nested mapping \<open>d\<close>, every non-empty key path and every
  default: when every key of the path is present, every value indexed on the way is a
  mapping and the value stored at the end of the path is not \<^verbatim>\<open>None\<close>,
  \<^verbatim>\<open>safe_get_nested\<close> returns exactly that stored value; when a key is missing, a value
  indexed on the way is not a mapping (a \<^verbatim>\<open>None\<close> met before the end of the path is such
  a value), or the stored value is \<^verbatim>\<open>None\<close>, it returns the supplied default. The
  function is total: it has no raising branch.
\<close>

theorem safe_get_nested_path:
  assumes "keys \<noteq> []"
  shows "(\<forall>v. stored_at d keys = Some v \<and> v \<noteq> PNone \<longrightarrow> safe_get_nested d keys dflt = v) \<and>
         (stored_at d keys = None \<or> stored_at d keys = Some PNone \<longrightarrow>
            safe_get_nested d keys dflt = dflt)"
  using assms safe_get_nested_stored safe_get_nested_missing by blast

theorem safe_get_nested_path_witness:
  "[''a'', ''b''] \<noteq> [] \<and>
   stored_at (PDict [(''a'', PDict [(''b'', PInt 1)])]) [''a'', ''b''] = Some (PInt 1) \<and>
   PInt 1 \<noteq> PNone \<and>
   safe_get_nested (PDict [(''a'', PDict [(''b'', PInt 1)])]) [''a'', ''b''] (PInt 0) = PInt 1 \<and>
   stored_at (PDict [(''a'', PDict [(''b'', PInt 1)])]) [''a'', ''c''] = None \<and>
   safe_get_nested (PDict [(''a'', PDict [(''b'', PInt 1)])]) [''a'', ''c''] (PInt 0) = PInt 0"
  using safe_get_nested_path [of "[''a'', ''b'']" "PDict [(''a'', PDict [(''b'', PInt 1)])]" "PInt 0"]
    safe_get_nested_path [of "[''a'', ''c'']" "PDict [(''a'', PDict [(''b'', PInt 1)])]" "PInt 0"]
  by simp

text \<open>
  C5 as stated fails where the path is fully present and the stored value is
  \<^verbatim>\<open>None\<close>: \<^verbatim>\<open>safe_get_nested({"a": None}, ["a"], 0)\<close> is \<^verbatim>\<open>0\<close>, not the stored
  \<^verbatim>\<open>None\<close>.
\<close>

theorem safe_get_nested_stored_None_counterexample:
  "stored_at (PDict [(''a'', PNone)]) [''a''] = Some PNone \<and>
   safe_get_nested (PDict [(''a'', PNone)]) [''a''] (PInt 0) = PInt 0 \<and>
   PInt 0 \<noteq> PNone"
  by simp

text \<open>
  C10. With an empty key sequence the loop body never runs: \<^verbatim>\<open>safe_get_nested\<close>
  returns \<open>d\<close> itself, whatever \<open>d\<close> is (a mapping or not, \<^verbatim>\<open>None\<close> included) and
  whatever the default.
\<close>

theorem safe_get_nested_empty_keys: "safe_get_nested d [] dflt = d"
  by simp

end
